theory Spec2Isabelle
  imports Main
begin

section \<open>JavaScript values\<close>

text \<open>
  The components read fields of plain JavaScript objects and branch on their truthiness.
  Numbers only occur under a truthiness test, where zero and NaN are the falsy ones, so a
  number is an integer or NaN here. An object is the association list of its own fields.
  A read of a field by name (\<open>document.isFetching\<close>, \<open>collection.id\<close>) looks at the own
  fields only: none of the names the components read is a member that objects inherit
  from \<open>Object.prototype\<close>. The one read under a computed key, \<open>state.entities[documentId]\<close>,
  follows the prototype chain (below).
\<close>

datatype jsval =
    JUndefined
  | JNull
  | JBool bool
  | JNum int
  | JNaN
  | JStr string
  | JObj "(string \<times> jsval) list"

type_synonym jsobj = "(string \<times> jsval) list"

fun truthy :: "jsval \<Rightarrow> bool" where
  "truthy JUndefined = False"
| "truthy JNull = False"
| "truthy (JBool b) = b"
| "truthy (JNum n) = (n \<noteq> 0)"
| "truthy JNaN = False"
| "truthy (JStr s) = (s \<noteq> [])"
| "truthy (JObj fs) = True"

text \<open>\<open>obj.f\<close> on an object: the field, or \<open>undefined\<close> when the object has none.\<close>

definition field :: "jsobj \<Rightarrow> string \<Rightarrow> jsval" where
  "field obj f = (case map_of obj f of None \<Rightarrow> JUndefined | Some v \<Rightarrow> v)"

text \<open>\<open>a || b\<close> returns the first operand when it is truthy, the second otherwise.\<close>

definition js_or :: "jsval \<Rightarrow> jsval \<Rightarrow> jsval" where
  "js_or a b = (if truthy a then a else b)"

text \<open>
  A rendered JSX tree. An element has a tag, props and children; a child or a prop can
  also be a plain value (\<open>{document.parent && ...}\<close> leaves the falsy value in the tree)
  or an object literal holding elements (\<open>values={{count: <FormattedNumber/>}}\<close>).
\<close>

datatype jsx =
    Element string "(string \<times> jsx) list" "jsx list"
  | Val jsval
  | ObjLit "(string \<times> jsx) list"

section \<open>DocumentScreen\<close>

text \<open>
  The Redux state holds the entity objects under their ids: \<open>entities\<close> gives the own
  properties of the plain object \<open>state.entities\<close>. The component is mounted by the
  router, which supplies \<open>match\<close> and \<open>location\<close>; route parameters are strings, and
  one that the route did not bind is \<open>undefined\<close> (\<open>None\<close>).
\<close>

record redux_state =
  entities :: "string \<rightharpoonup> jsobj"

record location_rec =
  hash :: jsval

record match_rec =
  params :: "string \<rightharpoonup> string"

record own_props =
  match :: match_rec
  location :: location_rec

record state_props =
  documentId :: "string option"
  document :: "jsobj option"

text \<open>The props the connected component receives: the state props merged over the own props.\<close>

record props = state_props +
  location :: location_rec

text \<open>The one action the component dispatches: \<open>fetchDocument({ id: documentId })\<close>.\<close>

datatype action = FetchDocument "string option"

text \<open>
  A plain object inherits the members of \<open>Object.prototype\<close>, and a property read finds
  them under their names when the object has no own property of that name. The members
  are built-in functions, and \<open>__proto__\<close>, which reads as \<open>Object.prototype\<close> itself. A
  built-in function is an object as well; of its own fields the name and the number of
  parameters are kept here (no field the component reads is among the others).
\<close>

definition builtin_function :: "string \<Rightarrow> int \<Rightarrow> jsobj" where
  "builtin_function name arity = [(''length'', JNum arity), (''name'', JStr name)]"

definition Object_prototype_functions :: "(string \<times> jsobj) list" where
  "Object_prototype_functions =
     [ (''constructor'', builtin_function ''Object'' 1),
       (''__defineGetter__'', builtin_function ''__defineGetter__'' 2),
       (''__defineSetter__'', builtin_function ''__defineSetter__'' 2),
       (''hasOwnProperty'', builtin_function ''hasOwnProperty'' 1),
       (''__lookupGetter__'', builtin_function ''__lookupGetter__'' 1),
       (''__lookupSetter__'', builtin_function ''__lookupSetter__'' 1),
       (''isPrototypeOf'', builtin_function ''isPrototypeOf'' 1),
       (''propertyIsEnumerable'', builtin_function ''propertyIsEnumerable'' 1),
       (''toString'', builtin_function ''toString'' 0),
       (''valueOf'', builtin_function ''valueOf'' 0),
       (''toLocaleString'', builtin_function ''toLocaleString'' 0) ]"

definition Object_prototype :: jsobj where
  "Object_prototype = map (\<lambda>(name, f). (name, JObj f)) Object_prototype_functions"

definition inherited :: "string \<rightharpoonup> jsobj" where
  "inherited = map_of ((''__proto__'', Object_prototype) # Object_prototype_functions)"

text \<open>\<open>obj[key]\<close> on a plain object with the given own properties.\<close>

definition get_property :: "(string \<rightharpoonup> jsobj) \<Rightarrow> string \<Rightarrow> jsobj option" where
  "get_property own key = (case own key of Some v \<Rightarrow> Some v | None \<Rightarrow> inherited key)"

text \<open>
  \<open>state.entities[key]\<close>. A property key is a string, and JavaScript turns any other key
  into one: \<open>undefined\<close> becomes the key \<open>"undefined"\<close>. The read is returned together
  with the key expression's value, so that the reads a function makes can be counted.
\<close>

definition index_entities :: "redux_state \<Rightarrow> string option \<Rightarrow> jsobj option \<times> string option list" where
  "index_entities state key =
     (get_property (entities state) (case key of None \<Rightarrow> ''undefined'' | Some k \<Rightarrow> k), [key])"

text \<open>
  \<open>mapStateToProps\<close>, with the list of keys it indexed \<open>state.entities\<close> with.
\<close>

definition mapStateToProps :: "redux_state \<Rightarrow> own_props \<Rightarrow> state_props \<times> string option list" where
  "mapStateToProps state ownProps =
     (let documentId = params (match ownProps) ''documentId'';
          (document, reads) =
             (if documentId \<noteq> None then index_entities state documentId else (None, []))
      in (\<lparr> documentId = documentId, document = document \<rparr>, reads))"

text \<open>\<open>connect(mapStateToProps, { fetchDocument })\<close>: the props of the wrapped component.\<close>

definition connect :: "redux_state \<Rightarrow> own_props \<Rightarrow> props" where
  "connect state ownProps =
     (let sp = fst (mapStateToProps state ownProps)
      in \<lparr> documentId = documentId sp, document = document sp,
           location = own_props.location ownProps \<rparr>)"

text \<open>The lifecycle methods return the actions they dispatch, in order.\<close>

definition componentDidMount :: "props \<Rightarrow> action list" where
  "componentDidMount this_props = [FetchDocument (documentId this_props)]"

definition componentDidUpdate :: "props \<Rightarrow> props \<Rightarrow> action list" where
  "componentDidUpdate this_props prevProps =
     (if documentId this_props \<noteq> documentId prevProps
      then [FetchDocument (documentId this_props)] else [])"

definition ScreenLoading :: jsx where
  "ScreenLoading = Element ''ScreenLoading'' [] []"

definition Screen :: "jsobj \<Rightarrow> location_rec \<Rightarrow> jsx" where
  "Screen doc loc =
     Element ''Screen'' []
       [ Element ''Helmet'' []
           [ Element ''title'' [] [Val (js_or (field doc ''title'') (field doc ''file_name''))] ],
         Element ''Breadcrumbs'' [(''collection'', Val (field doc ''collection''))]
           [ (if truthy (field doc ''parent'')
              then Element ''li'' []
                     [ Element ''Entity.Link''
                         [ (''entity'', Val (field doc ''parent'')),
                           (''className'', Val (JStr ''pt-breadcrumb'')),
                           (''icon'', Val (JBool True)),
                           (''truncate'', Val (JNum 30)) ] [] ]
              else Val (field doc ''parent'')),
             Element ''li'' []
               [ Element ''Entity.Link''
                   [ (''entity'', Val (JObj doc)),
                     (''className'', Val (JStr ''pt-breadcrumb'')),
                     (''icon'', Val (JBool True)),
                     (''truncate'', Val (JNum 30)) ] [] ] ],
         Element ''DualPane'' []
           [ Element ''DocumentInfo'' [(''document'', Val (JObj doc))] [],
             Element ''DocumentContent''
               [ (''document'', Val (JObj doc)), (''fragId'', Val (hash loc)) ] [] ] ]"

definition render :: "props \<Rightarrow> jsx" where
  "render this_props =
     (case document this_props of
        None \<Rightarrow> ScreenLoading
      | Some doc \<Rightarrow>
          if truthy (field doc ''isFetching'') then ScreenLoading
          else Screen doc (location this_props))"

text \<open>
  React's part: mounting renders and then runs \<open>componentDidMount\<close>; every later change of
  the props renders and then runs \<open>componentDidUpdate\<close> with the props before the change.
\<close>

definition mount :: "props \<Rightarrow> jsx \<times> action list" where
  "mount p = (render p, componentDidMount p)"

definition update :: "props \<Rightarrow> props \<Rightarrow> jsx \<times> action list" where
  "update prev p = (render p, componentDidUpdate p prev)"

fun updates :: "props \<Rightarrow> props list \<Rightarrow> action list" where
  "updates prev [] = []"
| "updates prev (p # ps) = snd (update prev p) @ updates p ps"

definition lifecycle :: "props \<Rightarrow> props list \<Rightarrow> action list" where
  "lifecycle p ps = snd (mount p) @ updates p ps"

section \<open>CollectionCard\<close>

text \<open>
  The card gets its \<open>collection\<close> from the parent component, which may pass anything,
  so the prop is any JavaScript value. Reading a field of \<open>undefined\<close> or \<open>null\<close> throws a
  TypeError; reading a field a value does not have gives \<open>undefined\<close> (none of the fields
  this component reads exists on a string, a number or a boolean).
\<close>

datatype js_error = TypeError

definition member :: "jsval \<Rightarrow> string \<Rightarrow> jsval" where
  "member v f = (case v of JObj obj \<Rightarrow> field obj f | _ \<Rightarrow> JUndefined)"

text \<open>
  A computation that reads fields of the collection: its result, or the error thrown, and
  the names of the fields read, in the order of the reads.
\<close>

type_synonym 'a reading = "(js_error + 'a) \<times> string list"

definition read_field :: "jsval \<Rightarrow> string \<Rightarrow> jsval reading" where
  "read_field v f =
     (if v = JUndefined \<or> v = JNull then (Inl TypeError, []) else (Inr (member v f), [f]))"

definition return_value :: "'a \<Rightarrow> 'a reading" where
  "return_value x = (Inr x, [])"

definition and_then :: "'a reading \<Rightarrow> ('a \<Rightarrow> 'b reading) \<Rightarrow> 'b reading" where
  "and_then m k =
     (case m of
        (Inl e, reads) \<Rightarrow> (Inl e, reads)
      | (Inr x, reads) \<Rightarrow> (case k x of (r, reads') \<Rightarrow> (r, reads @ reads')))"

record card_props =
  collection :: jsval

definition empty_span :: jsx where
  "empty_span = Element ''span'' [] []"

text \<open>
  \<open>CollectionCard.render\<close>. JSX evaluates props and children from left to right, so the
  reads after the guard are \<open>count\<close>, \<open>summary\<close> (once more inside the paragraph when it is
  truthy), \<open>summary\<close> for the negated test, and \<open>updated_at\<close>.
\<close>

definition CollectionCard_render :: "card_props \<Rightarrow> jsx reading" where
  "CollectionCard_render this_props =
     (let collection = collection this_props in
      if \<not> truthy collection then return_value empty_span
      else
        and_then (read_field collection ''id'') (\<lambda>id.
        if \<not> truthy id then return_value empty_span
        else
          and_then (read_field collection ''count'') (\<lambda>count.
          and_then (read_field collection ''summary'') (\<lambda>summary.
          and_then
            (if truthy summary
             then and_then (read_field collection ''summary'') (\<lambda>text.
                    return_value
                      (Element ''p'' []
                         [Element ''Truncate'' [(''lines'', Val (JNum 2))] [Val text]]))
             else return_value (Val summary)) (\<lambda>summary_block.
          and_then (read_field collection ''summary'') (\<lambda>summary'.
          and_then (read_field collection ''updated_at'') (\<lambda>updated_at.
          return_value
            (Element ''Collection.Link''
               [ (''collection'', Val collection),
                 (''className'', Val (JStr ''noLinkDecoration'')) ]
               [ Element ''div''
                   [(''className'',
                     Val (JStr ''CollectionCard pt-card pt-elevation-1 pt-interactive''))]
                   [ Element ''h4'' []
                       [Element ''Collection.Label'' [(''collection'', Val collection)] []],
                     Element ''div'' [(''className'', Val (JStr ''facts''))]
                       [ Element ''div'' [(''className'', Val (JStr ''fact''))]
                           [Element ''Category'' [(''collection'', Val collection)] []],
                         Element ''div'' [(''className'', Val (JStr ''fact''))]
                           [Element ''FormattedMessage''
                              [ (''id'', Val (JStr ''collection.total.count'')),
                                (''defaultMessage'', Val (JStr ''{count} Entries'')),
                                (''values'',
                                 ObjLit [(''count'',
                                   Element ''FormattedNumber'' [(''value'', Val count)] [])]) ]
                              []] ],
                     summary_block,
                     (if \<not> truthy summary'
                      then Element ''p'' [(''className'', Val (JStr ''missing''))]
                             [Element ''FormattedMessage''
                                [ (''id'', Val (JStr ''collection.summary.missing'')),
                                  (''defaultMessage'',
                                   Val (JStr ''This collection has no description.'')) ]
                                []]
                      else Val (JBool False)),
                     Element ''div'' [(''className'', Val (JStr ''bottom-fact''))]
                       [ Element ''i'' [(''className'', Val (JStr ''fa fa-fw fa-refresh''))] [],
                         Element ''FormattedMessage''
                           [ (''id'', Val (JStr ''collection.last_updated'')),
                             (''defaultMessage'', Val (JStr ''Last updated: {date}'')),
                             (''values'',
                              ObjLit [(''date'',
                                Element ''Date'' [(''value'', Val updated_at)] [])]) ]
                           [] ] ] ]))))))))"

section \<open>Entity store\<close>

text \<open>
  \<open>fetchDocument\<close> (imported from \<open>src/actions\<close>) and the reducer that maintains
  \<open>state.entities\<close> are not among the sources; only their caller, \<open>DocumentScreen\<close>, is.
  The store is therefore modelled from the specification (sections 3 to 6), over any type
  of entity ids.
\<close>

text \<open>Modelled from the spec: the error taxonomy of section 7 (the store's code is missing).\<close>

datatype fetch_error = NetworkError | NotFoundError | ServerError

text \<open>
  Modelled from the spec: the entity payload of section 3, a domain object with at least
  \<open>id\<close>, its other fields opaque to the store (the store's code is missing).
\<close>

record 'id payload =
  payload_id :: 'id
  payload_fields :: jsobj

text \<open>
  Modelled from the spec: the entity value union of section 3, which \<open>get\<close> returns (the
  store's code is missing).
\<close>

datatype 'id EntityState =
    NotRequested
  | Fetching
  | Loaded "'id payload"
  | Failed fetch_error

text \<open>
  Modelled from the spec: the record the store keeps for an id (the reducer is missing).
  A record exists from the first fetch of its id on. A record that is being fetched
  holds the number of the network call in flight for it, which identifies the operation
  that later callers are handed.
\<close>

datatype 'id entity_record =
    RFetching nat
  | RLoaded "'id payload"
  | RFailed fetch_error

text \<open>
  Modelled from the spec: the store (the reducer and the action are missing). Besides
  the records it holds what the claims observe: the network calls issued so far, in
  order, a call being numbered by its position; and the response each completed call got.
\<close>

record 'id store =
  records :: "'id \<rightharpoonup> 'id entity_record"
  network_calls :: "'id list"
  outcomes :: "nat \<rightharpoonup> fetch_error + 'id payload"

text \<open>
  Modelled from the spec: the store at session start, before any fetch (section 9; the
  store's code is missing).
\<close>

definition empty_store :: "'id store" where
  "empty_store = \<lparr> records = Map.empty, network_calls = [], outcomes = Map.empty \<rparr>"

text \<open>
  Modelled from the spec: \<open>get(id) -> EntityState\<close>, the synchronous read, which returns
  \<open>NotRequested\<close> if the id is unseen (section 4.1; the store's code is missing).
\<close>

definition get :: "'id store \<Rightarrow> 'id \<Rightarrow> 'id EntityState" where
  "get st eid =
     (case records st eid of
        None \<Rightarrow> NotRequested
      | Some (RFetching k) \<Rightarrow> Fetching
      | Some (RLoaded p) \<Rightarrow> Loaded p
      | Some (RFailed e) \<Rightarrow> Failed e)"

text \<open>
  Modelled from the spec: what \<open>fetch\<close> returns, a \<open>Promise<EntityState>\<close>: already
  resolved, or pending on the network call of the given number (the action is missing).
\<close>

datatype 'id promise =
    Resolved "'id EntityState"
  | Pending nat

text \<open>
  Modelled from the spec: \<open>fetch(id)\<close> of section 4.1 (\<open>fetchDocument\<close> is missing). If the
  record is being fetched, it returns the operation in flight; if it is loaded, it returns
  at once; otherwise it moves the record to fetching and issues the network request.
\<close>

definition fetch :: "'id \<Rightarrow> 'id store \<Rightarrow> 'id promise \<times> 'id store" where
  "fetch eid st =
     (case records st eid of
        Some (RFetching k) \<Rightarrow> (Pending k, st)
      | Some (RLoaded p) \<Rightarrow> (Resolved (Loaded p), st)
      | _ \<Rightarrow>
          (let k = length (network_calls st)
           in (Pending k,
               st \<lparr> records := (records st)(eid \<mapsto> RFetching k),
                    network_calls := network_calls st @ [eid] \<rparr>)))"

text \<open>
  Modelled from the spec: the record a response leaves, \<open>Loaded(payload)\<close> on success and
  \<open>Failed(error)\<close> on failure with the error kept as it came (section 4.1; the reducer is
  missing).
\<close>

definition settle :: "fetch_error + 'id payload \<Rightarrow> 'id entity_record" where
  "settle r = (case r of Inl e \<Rightarrow> RFailed e | Inr p \<Rightarrow> RLoaded p)"

text \<open>
  Modelled from the spec: the completion of the request in flight for an id (section 4.1:
  on success the record becomes \<open>Loaded(payload)\<close>, on failure \<open>Failed(error)\<close>; the
  reducer is missing). A response for an id with no request in flight changes nothing.
\<close>

definition respond :: "'id \<Rightarrow> fetch_error + 'id payload \<Rightarrow> 'id store \<Rightarrow> 'id store" where
  "respond eid r st =
     (case records st eid of
        Some (RFetching k) \<Rightarrow>
          st \<lparr> records := (records st)(eid \<mapsto> settle r), outcomes := (outcomes st)(k \<mapsto> r) \<rparr>
      | _ \<Rightarrow> st)"

text \<open>
  Modelled from the spec: the value a caller holding a promise observes, once there is
  one (the action is missing).
\<close>

definition await :: "'id store \<Rightarrow> 'id promise \<Rightarrow> 'id EntityState option" where
  "await st pr =
     (case pr of
        Resolved s \<Rightarrow> Some s
      | Pending k \<Rightarrow>
          (case outcomes st k of
             None \<Rightarrow> None
           | Some (Inl e) \<Rightarrow> Some (Failed e)
           | Some (Inr p) \<Rightarrow> Some (Loaded p)))"

text \<open>
  Modelled from the spec: what can happen to a store (sections 4.1, 5 and 6; the store's
  code and the backend are missing): a caller fetches an id; the network replies to the
  request for an id with a payload, which by section 6 is an object with at least an
  \<open>id\<close>; or the request for an id fails, at the server or in transit.
\<close>

datatype 'id event =
    Fetch 'id
  | Success 'id "'id payload"
  | Failure 'id fetch_error

text \<open>
  Modelled from the spec: the effect of one event and of a sequence of events on the store
  (section 4.1; the store's code is missing).
\<close>

fun step :: "'id event \<Rightarrow> 'id store \<Rightarrow> 'id store" where
  "step (Fetch eid) st = snd (fetch eid st)"
| "step (Success eid p) st = respond eid (Inr p) st"
| "step (Failure eid e) st = respond eid (Inl e) st"

fun run :: "'id event list \<Rightarrow> 'id store \<Rightarrow> 'id store" where
  "run [] st = st"
| "run (e # es) st = run es (step e st)"

text \<open>
  Modelled from the spec: the network calls in flight for an id, those issued for it that
  have no response yet (section 3; the store's code is missing).
\<close>

definition in_flight :: "'id store \<Rightarrow> 'id \<Rightarrow> nat list" where
  "in_flight st eid =
     filter (\<lambda>k. network_calls st ! k = eid \<and> outcomes st k = None)
       [0 ..< length (network_calls st)]"

text \<open>
  Modelled from the spec: the action \<open>fetchDocument({ id })\<close> that the view dispatches is
  the store's \<open>fetch(id)\<close> (section 6; the action is missing). The view passes its
  \<open>documentId\<close> as it is, so the store is keyed by what the view holds.
\<close>

fun dispatch :: "action \<Rightarrow> string option store \<Rightarrow> string option store" where
  "dispatch (FetchDocument eid) st = snd (fetch eid st)"

text \<open>
  Modelled from the spec: the actions a lifecycle method dispatched reach the store in
  order (section 2; the action is missing).
\<close>

fun dispatch_all :: "action list \<Rightarrow> string option store \<Rightarrow> string option store" where
  "dispatch_all [] st = st"
| "dispatch_all (a # as) st = dispatch_all as (dispatch a st)"



subsection \<open>The invariant of the store\<close>

text \<open>
  What holds of every store that a sequence of events builds from the empty one: a record
  being fetched holds the number of a call issued for its id and not yet answered; a call
  not yet answered is the one its id's record holds; only issued calls have outcomes;
  and the payload of a successful call is what its id's record holds.
\<close>

definition fetching_is_in_flight :: "'id store \<Rightarrow> bool" where
  "fetching_is_in_flight st \<longleftrightarrow>
     (\<forall>eid k. records st eid = Some (RFetching k) \<longrightarrow>
        k < length (network_calls st) \<and> network_calls st ! k = eid \<and> outcomes st k = None)"

definition in_flight_is_fetching :: "'id store \<Rightarrow> bool" where
  "in_flight_is_fetching st \<longleftrightarrow>
     (\<forall>k. k < length (network_calls st) \<longrightarrow> outcomes st k = None \<longrightarrow>
        records st (network_calls st ! k) = Some (RFetching k))"

definition outcomes_of_calls :: "'id store \<Rightarrow> bool" where
  "outcomes_of_calls st \<longleftrightarrow>
     (\<forall>k r. outcomes st k = Some r \<longrightarrow> k < length (network_calls st))"

definition success_is_loaded :: "'id store \<Rightarrow> bool" where
  "success_is_loaded st \<longleftrightarrow>
     (\<forall>k p. outcomes st k = Some (Inr p) \<longrightarrow>
        records st (network_calls st ! k) = Some (RLoaded p))"

definition store_inv :: "'id store \<Rightarrow> bool" where
  "store_inv st \<longleftrightarrow>
     fetching_is_in_flight st \<and> in_flight_is_fetching st \<and> outcomes_of_calls st
     \<and> success_is_loaded st"

text \<open>The two changes \<open>fetch\<close> and \<open>respond\<close> make to a store, named for the proofs.\<close>

definition issue :: "'id \<Rightarrow> 'id store \<Rightarrow> 'id store" where
  "issue eid st =
     st \<lparr> records := (records st)(eid \<mapsto> RFetching (length (network_calls st))),
          network_calls := network_calls st @ [eid] \<rparr>"

definition complete :: "'id \<Rightarrow> nat \<Rightarrow> fetch_error + 'id payload \<Rightarrow> 'id store \<Rightarrow> 'id store" where
  "complete eid k r st =
     st \<lparr> records := (records st)(eid \<mapsto> settle r), outcomes := (outcomes st)(k \<mapsto> r) \<rparr>"

section \<open>Properties of DocumentScreen\<close>

lemma remdups_adj_head: "remdups_adj (x # xs) = x # tl (remdups_adj (x # xs))"
  by (cases xs) simp_all

lemma updates_remdups_adj:
  "updates prev ps = map FetchDocument (tl (remdups_adj (map documentId (prev # ps))))"
proof (induction ps arbitrary: prev)
  case Nil
  show ?case by simp
next
  case (Cons p ps)
  show ?case
  proof (cases "documentId p = documentId prev")
    case True
    with Cons.IH [of p] show ?thesis
      by (simp add: update_def componentDidUpdate_def)
  next
    case False
    define ds where "ds = remdups_adj (documentId p # map documentId ps)"
    have ds: "ds = documentId p # tl ds"
      unfolding ds_def by (rule remdups_adj_head)
    have "map FetchDocument ds = FetchDocument (documentId p) # map FetchDocument (tl ds)"
      by (subst ds) simp
    with False Cons.IH [of p] show ?thesis
      by (simp add: update_def componentDidUpdate_def ds_def)
  qed
qed

lemma mapStateToProps_Some:
  "params (match ownProps) ''documentId'' = Some k \<Longrightarrow>
   mapStateToProps state ownProps =
     (\<lparr> documentId = Some k, document = get_property (entities state) k \<rparr>, [Some k])"
  by (simp add: mapStateToProps_def index_entities_def Let_def)


lemma mapStateToProps_None:
  "params (match ownProps) ''documentId'' = None \<Longrightarrow>
   mapStateToProps state ownProps = (\<lparr> documentId = None, document = None \<rparr>, [])"
  by (simp add: mapStateToProps_def Let_def)



lemma documentId_connect:
  "documentId (connect state ownProps) = params (match ownProps) ''documentId''"
  by (simp add: connect_def mapStateToProps_def Let_def split: prod.splits)

lemma inherited_7: "inherited ''7'' = None"
  by (simp add: inherited_def Object_prototype_functions_def)




text \<open>
  C7. The component dispatches \<open>fetchDocument({ id: documentId })\<close> on mount, and on an
  update exactly when \<open>documentId\<close> differs from the previous props': over a whole life
  (a mount, then any updates) the dispatched ids are the ids the component was given with
  adjacent repetitions removed. The store is read in \<open>mapStateToProps\<close> (one read of
  \<open>state.entities[k]\<close> when the route binds the id) and nowhere else: what the
  lifecycle methods dispatch is the same over any two store states.
\<close>

theorem dispatch_on_mount_and_id_change:
  "componentDidMount p = [FetchDocument (documentId p)]
   \<and> componentDidUpdate p prev =
       (if documentId p = documentId prev then [] else [FetchDocument (documentId p)])
   \<and> lifecycle p ps = map FetchDocument (remdups_adj (map documentId (p # ps)))
   \<and> (params (match ownProps) ''documentId'' = Some k \<longrightarrow>
        mapStateToProps state ownProps =
          (\<lparr> documentId = Some k, document = get_property (entities state) k \<rparr>, [Some k]))
   \<and> lifecycle (connect state ownProps) (map (\<lambda>s. connect s ownProps) states) =
       lifecycle (connect state' ownProps) (map (\<lambda>s. connect s ownProps) states')"
proof -
  have m: "componentDidMount p = [FetchDocument (documentId p)]"
    by (simp add: componentDidMount_def)
  have u: "componentDidUpdate p prev =
       (if documentId p = documentId prev then [] else [FetchDocument (documentId p)])"
    by (simp add: componentDidUpdate_def)
  have l: "lifecycle q qs = map FetchDocument (remdups_adj (map documentId (q # qs)))" for q qs
  proof -
    have "remdups_adj (map documentId (q # qs)) =
            documentId q # tl (remdups_adj (map documentId (q # qs)))"
      using remdups_adj_head [of "documentId q" "map documentId qs"] by simp
    then have "map FetchDocument (remdups_adj (map documentId (q # qs))) =
            FetchDocument (documentId q) #
              map FetchDocument (tl (remdups_adj (map documentId (q # qs))))"
      by (metis list.simps(9))
    then show ?thesis
      by (simp add: lifecycle_def mount_def componentDidMount_def updates_remdups_adj
            del: remdups_adj.simps)
  qed
  have s: "params (match ownProps) ''documentId'' = Some k \<longrightarrow>
        mapStateToProps state ownProps =
          (\<lparr> documentId = Some k, document = get_property (entities state) k \<rparr>, [Some k])"
    by (simp add: mapStateToProps_Some)
  have i: "map (documentId \<circ> (\<lambda>s. connect s ownProps)) xs =
             replicate (length xs) (params (match ownProps) ''documentId'')" for xs
    by (induction xs) (simp_all add: documentId_connect)
  have r: "remdups_adj (x # replicate n x) = [x]" for x :: "string option" and n
    by (induction n) simp_all
  have c: "lifecycle (connect st ownProps) (map (\<lambda>s. connect s ownProps) xs) =
             [FetchDocument (params (match ownProps) ''documentId'')]" for st xs
    unfolding l by (simp add: i r documentId_connect del: remdups_adj.simps)
  show ?thesis
    using m u l [of p ps] s c [of state states] c [of state' states'] by simp
qed

theorem dispatch_on_mount_and_id_change_witness:
  "mapStateToProps \<lparr> entities = Map.empty \<rparr>
     \<lparr> match = \<lparr> params = [''documentId'' \<mapsto> ''7''] \<rparr>, location = \<lparr> hash = JStr [] \<rparr> \<rparr>
   = (\<lparr> documentId = Some ''7'', document = None \<rparr>, [Some ''7''])"
  using dispatch_on_mount_and_id_change
    [of undefined undefined "[]"
        "\<lparr> match = \<lparr> params = [''documentId'' \<mapsto> ''7''] \<rparr>, location = \<lparr> hash = JStr [] \<rparr> \<rparr>"
        "''7''" "\<lparr> entities = Map.empty \<rparr>" "[]" "\<lparr> entities = Map.empty \<rparr>" "[]"]
  by (simp add: get_property_def inherited_7)

text \<open>
  C8. When the route does not bind \<open>documentId\<close>, \<open>mapStateToProps\<close> returns
  \<open>document = undefined\<close> and has not indexed \<open>state.entities\<close> at all; and whatever the
  route binds, it never indexes \<open>state.entities\<close> with \<open>undefined\<close>.
\<close>

theorem undefined_id_not_indexed:
  "(params (match ownProps) ''documentId'' = None \<longrightarrow>
      mapStateToProps state ownProps = (\<lparr> documentId = None, document = None \<rparr>, []))
   \<and> None \<notin> set (snd (mapStateToProps state ownProps))"
  by (cases "params (match ownProps) ''documentId''")
     (simp_all add: mapStateToProps_Some mapStateToProps_None)

theorem undefined_id_not_indexed_witness:
  "mapStateToProps \<lparr> entities = [''undefined'' \<mapsto> [(''title'', JStr ''x'')]] \<rparr>
     \<lparr> match = \<lparr> params = Map.empty \<rparr>, location = \<lparr> hash = JStr [] \<rparr> \<rparr>
   = (\<lparr> documentId = None, document = None \<rparr>, [])"
  using undefined_id_not_indexed
    [of "\<lparr> match = \<lparr> params = Map.empty \<rparr>, location = \<lparr> hash = JStr [] \<rparr> \<rparr>"
        "\<lparr> entities = [''undefined'' \<mapsto> [(''title'', JStr ''x'')]] \<rparr>"]
  by simp

text \<open>
  C10. \<open>componentDidUpdate\<close> dispatches nothing when \<open>documentId\<close> equals the previous
  props' \<open>documentId\<close>: over any sequence of updates that all carry the id the component
  had before them, the updates dispatch no action.
\<close>

theorem no_dispatch_when_id_unchanged:
  assumes "\<forall>p \<in> set ps. documentId p = documentId prev"
  shows "updates prev ps = []"
  using assms
proof (induction ps arbitrary: prev)
  case Nil
  show ?case by simp
next
  case (Cons p ps)
  from Cons.prems have same: "documentId p = documentId prev"
    and rest: "\<forall>q \<in> set ps. documentId q = documentId p"
    by simp_all
  from Cons.IH [OF rest] same show ?case
    by (simp add: update_def componentDidUpdate_def)
qed

theorem no_dispatch_when_id_unchanged_witness:
  "documentId \<lparr> documentId = Some ''7'', document = Some [(''isFetching'', JBool True)],
                location = \<lparr> hash = JStr [] \<rparr> \<rparr> = Some ''7''
   \<and> documentId \<lparr> documentId = Some ''7'', document = Some [(''title'', JStr ''A'')],
                  location = \<lparr> hash = JStr [] \<rparr> \<rparr> = Some ''7''
   \<and> updates \<lparr> documentId = Some ''7'', document = None, location = \<lparr> hash = JStr [] \<rparr> \<rparr>
        [\<lparr> documentId = Some ''7'', document = Some [(''isFetching'', JBool True)],
           location = \<lparr> hash = JStr [] \<rparr> \<rparr>,
         \<lparr> documentId = Some ''7'', document = Some [(''title'', JStr ''A'')],
           location = \<lparr> hash = JStr [] \<rparr> \<rparr>] = []"
  using no_dispatch_when_id_unchanged
    [of "[\<lparr> documentId = Some ''7'', document = Some [(''isFetching'', JBool True)],
            location = \<lparr> hash = JStr [] \<rparr> \<rparr>,
          \<lparr> documentId = Some ''7'', document = Some [(''title'', JStr ''A'')],
            location = \<lparr> hash = JStr [] \<rparr> \<rparr>]"
        "\<lparr> documentId = Some ''7'', document = None, location = \<lparr> hash = JStr [] \<rparr> \<rparr>"]
  by simp

section \<open>Properties of CollectionCard\<close>

lemma read_field_truthy:
  "truthy v \<Longrightarrow> read_field v f = (Inr (member v f), [f])"
  by (cases v) (simp_all add: read_field_def)

lemma and_then_read:
  "truthy v \<Longrightarrow>
   and_then (read_field v f) k = (fst (k (member v f)), f # snd (k (member v f)))"
  by (simp add: and_then_def read_field_truthy split: prod.split)

lemma and_then_Inr: "and_then (Inr x, reads) k = (fst (k x), reads @ snd (k x))"
  by (simp add: and_then_def split: prod.split)

lemma and_then_return: "and_then (return_value x) k = k x"
  by (simp add: and_then_def return_value_def split: prod.split)

text \<open>The guard makes every later read safe: the render never throws.\<close>

lemma CollectionCard_render_total: "\<exists>tree. fst (CollectionCard_render p) = Inr tree"
proof (cases "truthy (collection p)")
  case False
  then show ?thesis
    by (simp add: CollectionCard_render_def return_value_def)
next
  case True
  then show ?thesis
    by (simp add: CollectionCard_render_def Let_def and_then_read and_then_Inr
          return_value_def)
qed

text \<open>
  C9. When the \<open>collection\<close> prop is falsy (\<open>undefined\<close> and \<open>null\<close> included), or it is
  truthy and its \<open>id\<close> is falsy, \<open>CollectionCard.render\<close> returns the empty \<open>span\<close>, and
  \<open>id\<close> is the only field of the collection it has read.
\<close>

theorem empty_span_without_collection_id:
  assumes "\<not> truthy (collection p) \<or> \<not> truthy (member (collection p) ''id'')"
  shows "fst (CollectionCard_render p) = Inr empty_span
       \<and> set (snd (CollectionCard_render p)) \<subseteq> {''id''}"
proof (cases "truthy (collection p)")
  case False
  then show ?thesis
    by (simp add: CollectionCard_render_def return_value_def)
next
  case True
  with assms have "\<not> truthy (member (collection p) ''id'')" by simp
  with True show ?thesis
    by (simp add: CollectionCard_render_def Let_def and_then_read return_value_def)
qed

theorem empty_span_without_collection_id_witness:
  "CollectionCard_render \<lparr> collection = JObj [(''id'', JNum 0), (''summary'', JStr ''s'')] \<rparr>
     = (Inr empty_span, [''id''])
   \<and> CollectionCard_render \<lparr> collection = JNull \<rparr> = (Inr empty_span, [])"
proof -
  have a: "fst (CollectionCard_render \<lparr> collection = JObj [(''id'', JNum 0), (''summary'', JStr ''s'')] \<rparr>)
             = Inr empty_span"
    using empty_span_without_collection_id
      [of "\<lparr> collection = JObj [(''id'', JNum 0), (''summary'', JStr ''s'')] \<rparr>"]
    by (simp add: member_def field_def)
  have b: "snd (CollectionCard_render \<lparr> collection = JObj [(''id'', JNum 0), (''summary'', JStr ''s'')] \<rparr>)
             = [''id'']"
    by (simp add: CollectionCard_render_def and_then_read return_value_def member_def field_def)
  have c: "CollectionCard_render \<lparr> collection = JNull \<rparr> = (Inr empty_span, [])"
    by (simp add: CollectionCard_render_def return_value_def)
  from a b c show ?thesis by (simp add: prod_eq_iff)
qed

section \<open>Properties of the entity store\<close>

lemma store_inv_empty: "store_inv empty_store"
  by (simp add: store_inv_def empty_store_def fetching_is_in_flight_def
        in_flight_is_fetching_def outcomes_of_calls_def success_is_loaded_def)

lemma fetch_cases:
  "fetch eid st =
     (case records st eid of
        Some (RFetching k) \<Rightarrow> (Pending k, st)
      | Some (RLoaded p) \<Rightarrow> (Resolved (Loaded p), st)
      | _ \<Rightarrow> (Pending (length (network_calls st)), issue eid st))"
  by (simp add: fetch_def issue_def Let_def split: option.split entity_record.split)

lemma respond_cases:
  "respond eid r st =
     (case records st eid of Some (RFetching k) \<Rightarrow> complete eid k r st | _ \<Rightarrow> st)"
  by (simp add: respond_def complete_def split: option.split entity_record.split)

lemma outcome_none_at_end:
  "outcomes_of_calls st \<Longrightarrow> outcomes st (length (network_calls st)) = None"
  unfolding outcomes_of_calls_def by (cases "outcomes st (length (network_calls st))") auto

lemma store_inv_issue:
  assumes inv: "store_inv st"
    and nf: "\<And>k. records st eid \<noteq> Some (RFetching k)"
    and nl: "\<And>p. records st eid \<noteq> Some (RLoaded p)"
  shows "store_inv (issue eid st)"
proof -
  from inv have a: "fetching_is_in_flight st" and b: "in_flight_is_fetching st"
    and c: "outcomes_of_calls st" and d: "success_is_loaded st"
    by (simp_all add: store_inv_def)
  have a': "fetching_is_in_flight (issue eid st)"
    unfolding fetching_is_in_flight_def
  proof (intro allI impI)
    fix x k assume h: "records (issue eid st) x = Some (RFetching k)"
    show "k < length (network_calls (issue eid st)) \<and> network_calls (issue eid st) ! k = x
            \<and> outcomes (issue eid st) k = None"
    proof (cases "x = eid")
      case True
      with h have "k = length (network_calls st)" by (simp add: issue_def)
      with True outcome_none_at_end [OF c] show ?thesis by (simp add: issue_def)
    next
      case False
      with h have "records st x = Some (RFetching k)" by (simp add: issue_def)
      with a have "k < length (network_calls st) \<and> network_calls st ! k = x \<and> outcomes st k = None"
        unfolding fetching_is_in_flight_def by blast
      then show ?thesis by (simp add: issue_def nth_append)
    qed
  qed
  have b': "in_flight_is_fetching (issue eid st)"
    unfolding in_flight_is_fetching_def
  proof (intro allI impI)
    fix k assume k: "k < length (network_calls (issue eid st))"
      and o: "outcomes (issue eid st) k = None"
    show "records (issue eid st) (network_calls (issue eid st) ! k) = Some (RFetching k)"
    proof (cases "k < length (network_calls st)")
      case True
      from o have "outcomes st k = None" by (simp add: issue_def)
      with b True have r: "records st (network_calls st ! k) = Some (RFetching k)"
        unfolding in_flight_is_fetching_def by blast
      with nf have "network_calls st ! k \<noteq> eid" by metis
      with r True show ?thesis by (simp add: issue_def nth_append)
    next
      case False
      with k have "k = length (network_calls st)" by (simp add: issue_def)
      then show ?thesis by (simp add: issue_def)
    qed
  qed
  have c': "outcomes_of_calls (issue eid st)"
    using c unfolding outcomes_of_calls_def by (auto simp: issue_def less_Suc_eq)
  have d': "success_is_loaded (issue eid st)"
    unfolding success_is_loaded_def
  proof (intro allI impI)
    fix k p assume "outcomes (issue eid st) k = Some (Inr p)"
    then have o: "outcomes st k = Some (Inr p)" by (simp add: issue_def)
    with c have k: "k < length (network_calls st)" unfolding outcomes_of_calls_def by blast
    from o d have r: "records st (network_calls st ! k) = Some (RLoaded p)"
      unfolding success_is_loaded_def by blast
    with nl have "network_calls st ! k \<noteq> eid" by metis
    with r k show "records (issue eid st) (network_calls (issue eid st) ! k) = Some (RLoaded p)"
      by (simp add: issue_def nth_append)
  qed
  from a' b' c' d' show ?thesis by (simp add: store_inv_def)
qed


lemma store_inv_complete:
  assumes inv: "store_inv st"
    and f: "records st eid = Some (RFetching k)"
  shows "store_inv (complete eid k r st)"
proof -
  from inv have a: "fetching_is_in_flight st" and b: "in_flight_is_fetching st"
    and c: "outcomes_of_calls st" and d: "success_is_loaded st"
    by (simp_all add: store_inv_def)
  from a f have k: "k < length (network_calls st)" and ck: "network_calls st ! k = eid"
    and ok: "outcomes st k = None"
    unfolding fetching_is_in_flight_def by blast+
  have s: "settle r \<noteq> RFetching j" for j
    by (cases r) (simp_all add: settle_def)
  have a': "fetching_is_in_flight (complete eid k r st)"
    unfolding fetching_is_in_flight_def
  proof (intro allI impI)
    fix x j assume h: "records (complete eid k r st) x = Some (RFetching j)"
    with s have x: "x \<noteq> eid" by (auto simp: complete_def)
    with h have "records st x = Some (RFetching j)" by (simp add: complete_def)
    with a have j: "j < length (network_calls st) \<and> network_calls st ! j = x \<and> outcomes st j = None"
      unfolding fetching_is_in_flight_def by blast
    with x ck have "j \<noteq> k" by auto
    with j show "j < length (network_calls (complete eid k r st))
        \<and> network_calls (complete eid k r st) ! j = x \<and> outcomes (complete eid k r st) j = None"
      by (simp add: complete_def)
  qed
  have b': "in_flight_is_fetching (complete eid k r st)"
    unfolding in_flight_is_fetching_def
  proof (intro allI impI)
    fix j assume j: "j < length (network_calls (complete eid k r st))"
      and o: "outcomes (complete eid k r st) j = None"
    from o have jk: "j \<noteq> k" and oj: "outcomes st j = None"
      by (auto simp: complete_def split: if_splits)
    from j have "j < length (network_calls st)" by (simp add: complete_def)
    with b oj have rj: "records st (network_calls st ! j) = Some (RFetching j)"
      unfolding in_flight_is_fetching_def by blast
    with f jk have "network_calls st ! j \<noteq> eid" by auto
    with rj show "records (complete eid k r st) (network_calls (complete eid k r st) ! j)
        = Some (RFetching j)"
      by (simp add: complete_def)
  qed
  have c': "outcomes_of_calls (complete eid k r st)"
    using c k unfolding outcomes_of_calls_def by (auto simp: complete_def)
  have d': "success_is_loaded (complete eid k r st)"
    unfolding success_is_loaded_def
  proof (intro allI impI)
    fix j p assume o: "outcomes (complete eid k r st) j = Some (Inr p)"
    show "records (complete eid k r st) (network_calls (complete eid k r st) ! j)
        = Some (RLoaded p)"
    proof (cases "j = k")
      case True
      with o have "r = Inr p" by (simp add: complete_def)
      with True ck show ?thesis by (simp add: complete_def settle_def)
    next
      case False
      with o have "outcomes st j = Some (Inr p)" by (simp add: complete_def)
      with d have rj: "records st (network_calls st ! j) = Some (RLoaded p)"
        unfolding success_is_loaded_def by blast
      with f have "network_calls st ! j \<noteq> eid" by auto
      with rj show ?thesis by (simp add: complete_def)
    qed
  qed
  from a' b' c' d' show ?thesis by (simp add: store_inv_def)
qed

lemma store_inv_fetch: "store_inv st \<Longrightarrow> store_inv (snd (fetch eid st))"
  by (simp add: fetch_cases store_inv_issue split: option.split entity_record.split)

lemma store_inv_respond: "store_inv st \<Longrightarrow> store_inv (respond eid r st)"
  by (simp add: respond_cases store_inv_complete split: option.split entity_record.split)

lemma store_inv_step: "store_inv st \<Longrightarrow> store_inv (step e st)"
  by (cases e) (simp_all add: store_inv_fetch store_inv_respond)

lemma store_inv_run: "store_inv st \<Longrightarrow> store_inv (run evs st)"
  by (induction evs arbitrary: st) (simp_all add: store_inv_step)

lemma store_inv_reachable: "store_inv (run evs empty_store)"
  by (rule store_inv_run [OF store_inv_empty])

lemma filter_eq_upt: "filter (\<lambda>k. j = k) [0 ..< n] = (if j < n then [j] else [])"
  by (induction n) auto

lemma in_flight_record:
  assumes inv: "store_inv st"
  shows "in_flight st eid = (case records st eid of Some (RFetching k) \<Rightarrow> [k] | _ \<Rightarrow> [])"
proof -
  from inv have a: "fetching_is_in_flight st" and b: "in_flight_is_fetching st"
    by (simp_all add: store_inv_def)
  have p: "k < length (network_calls st) \<Longrightarrow>
      (network_calls st ! k = eid \<and> outcomes st k = None) = (records st eid = Some (RFetching k))"
    for k
    using a b unfolding fetching_is_in_flight_def in_flight_is_fetching_def by blast
  have f: "in_flight st eid =
      filter (\<lambda>k. records st eid = Some (RFetching k)) [0 ..< length (network_calls st)]"
    unfolding in_flight_def by (rule filter_cong) (simp_all add: p)
  show ?thesis
  proof (cases "\<exists>j. records st eid = Some (RFetching j)")
    case True
    then obtain j where j: "records st eid = Some (RFetching j)" by blast
    with a have "j < length (network_calls st)"
      unfolding fetching_is_in_flight_def by blast
    with j filter_eq_upt [of j "length (network_calls st)"] show ?thesis
      unfolding f by simp
  next
    case False
    then have "filter (\<lambda>k. records st eid = Some (RFetching k)) [0 ..< length (network_calls st)] = []"
      by simp
    with False show ?thesis
      unfolding f by (auto split: option.split entity_record.split)
  qed
qed

lemma get_Fetching: "get st eid = Fetching \<longleftrightarrow> (\<exists>k. records st eid = Some (RFetching k))"
  by (simp add: get_def split: option.split entity_record.split)

lemma get_Loaded: "get st eid = Loaded p \<longleftrightarrow> records st eid = Some (RLoaded p)"
  by (simp add: get_def split: option.split entity_record.split)

lemma get_Failed: "get st eid = Failed e \<longleftrightarrow> records st eid = Some (RFailed e)"
  by (simp add: get_def split: option.split entity_record.split)


lemma fetch_twice: "fetch eid (snd (fetch eid st)) = (fst (fetch eid st), snd (fetch eid st))"
  by (simp add: fetch_cases issue_def split: option.split entity_record.split)

lemma fetch_calls:
  "network_calls (snd (fetch eid st)) =
     (if get st eid = Fetching \<or> (\<exists>p. get st eid = Loaded p) then network_calls st
      else network_calls st @ [eid])"
  by (simp add: fetch_cases issue_def get_def split: option.split entity_record.split)


lemma step_loaded: "records st eid = Some (RLoaded p) \<Longrightarrow> records (step e st) eid = Some (RLoaded p)"
  by (cases e)
     (auto simp: fetch_cases respond_cases issue_def complete_def
           split: option.split entity_record.split)

lemma run_loaded: "records st eid = Some (RLoaded p) \<Longrightarrow> records (run evs st) eid = Some (RLoaded p)"
  by (induction evs arbitrary: st) (simp_all add: step_loaded)






lemma dispatch_mount: "dispatch_all (componentDidMount p) st = snd (fetch (documentId p) st)"
  by (simp add: componentDidMount_def)

text \<open>
  C1. In every store that events build from the empty one, each id has at most one
  network call in flight. While the record of an id is \<open>Fetching\<close>, \<open>fetch\<close> of that id
  returns the one operation in flight and leaves the store, and so the list of network
  calls, as it is. Two fetches in a row return the same promise, so both callers observe
  the same result, and issue at most one call between them; when the response to the call
  in flight arrives, the promise resolves to the state the record then has. The view's
  dispatch on mount
  reaches the store as this \<open>fetch\<close>, and changes nothing while the record is \<open>Fetching\<close>.
\<close>

theorem at_most_one_fetch_in_flight:
  assumes "st = run evs empty_store"
  shows "length (in_flight st eid) \<le> 1
       \<and> (get st eid = Fetching \<longrightarrow>
            (\<exists>k. in_flight st eid = [k] \<and> fetch eid st = (Pending k, st)))
       \<and> fetch eid (snd (fetch eid st)) = (fst (fetch eid st), snd (fetch eid st))
       \<and> length (network_calls (snd (fetch eid (snd (fetch eid st))))) \<le> Suc (length (network_calls st))
       \<and> (get st eid = Fetching \<longrightarrow>
            await (respond eid r st) (fst (fetch eid st)) = Some (get (respond eid r st) eid))
       \<and> (get st' (documentId p) = Fetching \<longrightarrow> dispatch_all (componentDidMount p) st' = st')"
proof -
  from assms have inv: "store_inv st" by (simp add: store_inv_reachable)
  have a: "length (in_flight st eid) \<le> 1"
    by (simp add: in_flight_record [OF inv] split: option.split entity_record.split)
  have b: "get st eid = Fetching \<longrightarrow>
            (\<exists>k. in_flight st eid = [k] \<and> fetch eid st = (Pending k, st))"
    by (auto simp: get_Fetching in_flight_record [OF inv] fetch_cases)
  have c: "length (network_calls (snd (fetch eid (snd (fetch eid st))))) \<le> Suc (length (network_calls st))"
    by (simp add: fetch_twice fetch_calls)
  have d: "get st' (documentId p) = Fetching \<longrightarrow> dispatch_all (componentDidMount p) st' = st'"
    by (auto simp: dispatch_mount get_Fetching fetch_cases)
  have e: "get st eid = Fetching \<longrightarrow>
            await (respond eid r st) (fst (fetch eid st)) = Some (get (respond eid r st) eid)"
  proof
    assume "get st eid = Fetching"
    then obtain k where k: "records st eid = Some (RFetching k)"
      by (auto simp: get_Fetching)
    show "await (respond eid r st) (fst (fetch eid st)) = Some (get (respond eid r st) eid)"
      by (cases r)
         (simp_all add: k fetch_cases respond_cases complete_def settle_def await_def get_def)
  qed
  from a b c d e fetch_twice [of eid st] show ?thesis by blast
qed

theorem at_most_one_fetch_in_flight_witness:
  "get (run [Fetch ''doc-3''] empty_store) ''doc-3'' = Fetching
   \<and> (\<exists>k. in_flight (run [Fetch ''doc-3''] empty_store) ''doc-3'' = [k]
          \<and> fetch ''doc-3'' (run [Fetch ''doc-3''] empty_store)
              = (Pending k, run [Fetch ''doc-3''] empty_store))
   \<and> get (run [Fetch (Some ''doc-3'')] empty_store) (Some ''doc-3'') = Fetching
   \<and> dispatch_all
         (componentDidMount \<lparr> documentId = Some ''doc-3'',
            document = Some [(''isFetching'', JBool True)], location = \<lparr> hash = JStr [] \<rparr> \<rparr>)
         (run [Fetch (Some ''doc-3'')] empty_store)
       = run [Fetch (Some ''doc-3'')] empty_store"
proof -
  have g: "get (run [Fetch ''doc-3''] empty_store) ''doc-3'' = Fetching"
    by (simp add: fetch_def empty_store_def get_def)
  have h: "get (run [Fetch (Some ''doc-3'')] empty_store)
             (documentId \<lparr> documentId = Some ''doc-3'',
                document = Some [(''isFetching'', JBool True)], location = \<lparr> hash = JStr [] \<rparr> \<rparr>)
           = Fetching"
    by (simp add: fetch_def empty_store_def get_def)
  from g h at_most_one_fetch_in_flight
    [OF refl, of "[Fetch ''doc-3'']" "''doc-3''" undefined "run [Fetch (Some ''doc-3'')] empty_store"
       "\<lparr> documentId = Some ''doc-3'', document = Some [(''isFetching'', JBool True)],
          location = \<lparr> hash = JStr [] \<rparr> \<rparr>"]
  show ?thesis by simp
qed

text \<open>
  C2. When the record of an id is \<open>Loaded\<close>, \<open>fetch\<close> of that id returns a promise already
  resolved to the loaded payload and leaves the store, and so the list of network calls,
  as it is; no later event takes the record out of \<open>Loaded\<close> with that payload. The
  view's dispatch on mount changes nothing when the record is \<open>Loaded\<close>.
\<close>

theorem loaded_fetch_no_network_call:
  assumes "get st eid = Loaded p"
  shows "fetch eid st = (Resolved (Loaded p), st)
       \<and> get (run evs st) eid = Loaded p
       \<and> (get st' (documentId pr) = Loaded p' \<longrightarrow> dispatch_all (componentDidMount pr) st' = st')"
proof -
  from assms have r: "records st eid = Some (RLoaded p)" by (simp add: get_Loaded)
  then have a: "fetch eid st = (Resolved (Loaded p), st)" by (simp add: fetch_cases)
  from r have b: "get (run evs st) eid = Loaded p" by (simp add: get_Loaded run_loaded)
  have c: "get st' (documentId pr) = Loaded p' \<longrightarrow> dispatch_all (componentDidMount pr) st' = st'"
    by (simp add: dispatch_mount get_Loaded fetch_cases)
  from a b c show ?thesis by blast
qed

theorem loaded_fetch_no_network_call_witness:
  "get (run [Fetch (Some ''doc-1''),
             Success (Some ''doc-1'')
               \<lparr> payload_id = Some ''doc-1'', payload_fields = [(''title'', JStr ''A'')] \<rparr>]
          empty_store) (Some ''doc-1'')
     = Loaded \<lparr> payload_id = Some ''doc-1'', payload_fields = [(''title'', JStr ''A'')] \<rparr>
   \<and> fetch (Some ''doc-1'')
        (run [Fetch (Some ''doc-1''),
              Success (Some ''doc-1'')
               \<lparr> payload_id = Some ''doc-1'', payload_fields = [(''title'', JStr ''A'')] \<rparr>]
           empty_store)
     = (Resolved (Loaded \<lparr> payload_id = Some ''doc-1'', payload_fields = [(''title'', JStr ''A'')] \<rparr>),
        run [Fetch (Some ''doc-1''),
             Success (Some ''doc-1'')
               \<lparr> payload_id = Some ''doc-1'', payload_fields = [(''title'', JStr ''A'')] \<rparr>]
          empty_store)
   \<and> dispatch_all
        (componentDidMount \<lparr> documentId = Some ''doc-1'',
           document = Some [(''title'', JStr ''A'')], location = \<lparr> hash = JStr [] \<rparr> \<rparr>)
        (run [Fetch (Some ''doc-1''),
              Success (Some ''doc-1'')
               \<lparr> payload_id = Some ''doc-1'', payload_fields = [(''title'', JStr ''A'')] \<rparr>]
           empty_store)
     = run [Fetch (Some ''doc-1''),
            Success (Some ''doc-1'')
               \<lparr> payload_id = Some ''doc-1'', payload_fields = [(''title'', JStr ''A'')] \<rparr>]
         empty_store"
proof -
  define st :: "string option store" where
    "st = run [Fetch (Some ''doc-1''),
              Success (Some ''doc-1'')
               \<lparr> payload_id = Some ''doc-1'', payload_fields = [(''title'', JStr ''A'')] \<rparr>]
           empty_store"
  have g: "get st (Some ''doc-1'')
     = Loaded \<lparr> payload_id = Some ''doc-1'', payload_fields = [(''title'', JStr ''A'')] \<rparr>"
    by (simp add: st_def fetch_def respond_def settle_def empty_store_def get_def)
  have h: "get st (documentId \<lparr> documentId = Some ''doc-1'',
             document = Some [(''title'', JStr ''A'')], location = \<lparr> hash = JStr [] \<rparr> \<rparr>)
     = Loaded \<lparr> payload_id = Some ''doc-1'', payload_fields = [(''title'', JStr ''A'')] \<rparr>"
    using g by simp
  from g h loaded_fetch_no_network_call
    [OF g, of "[]" st
       "\<lparr> documentId = Some ''doc-1'', document = Some [(''title'', JStr ''A'')],
          location = \<lparr> hash = JStr [] \<rparr> \<rparr>"
       "\<lparr> payload_id = Some ''doc-1'', payload_fields = [(''title'', JStr ''A'')] \<rparr>"]
  show ?thesis unfolding st_def by simp
qed




text \<open>
  C4. In a store that events built from the empty one, when the record of an id is
  \<open>Failed\<close>, no call for it is in flight, and \<open>fetch\<close> of that id issues a new network
  call, the next in number, and moves the record to \<open>Fetching\<close> with that call in flight.
  A request that fails leaves the record \<open>Failed\<close> with the error it failed with. The
  view's dispatch on mount issues the new call when the record is \<open>Failed\<close>.
\<close>

theorem failed_fetch_retries:
  assumes "st = run evs empty_store" and "get st eid = Failed e"
  shows "in_flight st eid = []
       \<and> fst (fetch eid st) = Pending (length (network_calls st))
       \<and> network_calls (snd (fetch eid st)) = network_calls st @ [eid]
       \<and> get (snd (fetch eid st)) eid = Fetching
       \<and> in_flight (snd (fetch eid st)) eid = [length (network_calls st)]
       \<and> (get st0 eid = Fetching \<longrightarrow> get (step (Failure eid e') st0) eid = Failed e')
       \<and> (get st' (documentId pr) = Failed e'' \<longrightarrow>
            network_calls (dispatch_all (componentDidMount pr) st') =
              network_calls st' @ [documentId pr])"
proof -
  from assms have inv: "store_inv st" by (simp add: store_inv_reachable)
  from assms have r: "records st eid = Some (RFailed e)" by (simp add: get_Failed)
  have a: "in_flight st eid = []" by (simp add: in_flight_record [OF inv] r)
  from r have f: "fetch eid st = (Pending (length (network_calls st)), issue eid st)"
    by (simp add: fetch_cases)
  have b: "network_calls (snd (fetch eid st)) = network_calls st @ [eid]"
    by (simp add: f issue_def)
  have c: "get (snd (fetch eid st)) eid = Fetching"
    by (simp add: f issue_def get_def)
  from inv have "store_inv (snd (fetch eid st))" by (rule store_inv_fetch)
  then have d: "in_flight (snd (fetch eid st)) eid = [length (network_calls st)]"
    by (simp add: in_flight_record f issue_def)
  have g: "get st0 eid = Fetching \<longrightarrow> get (step (Failure eid e') st0) eid = Failed e'"
    by (auto simp: get_Fetching get_Failed respond_cases complete_def settle_def)
  have h: "get st' (documentId pr) = Failed e'' \<longrightarrow>
            network_calls (dispatch_all (componentDidMount pr) st') =
              network_calls st' @ [documentId pr]"
    by (simp add: dispatch_mount get_Failed fetch_cases issue_def)
  from a f b c d g h show ?thesis by simp
qed

theorem failed_fetch_retries_witness:
  "get (run [Fetch (Some ''doc-2''), Failure (Some ''doc-2'') NotFoundError] empty_store) (Some ''doc-2'')
     = Failed NotFoundError
   \<and> network_calls
        (snd (fetch (Some ''doc-2'')
               (run [Fetch (Some ''doc-2''), Failure (Some ''doc-2'') NotFoundError] empty_store)))
       = network_calls (run [Fetch (Some ''doc-2''), Failure (Some ''doc-2'') NotFoundError] empty_store)
           @ [Some ''doc-2'']
   \<and> get (snd (fetch (Some ''doc-2'')
               (run [Fetch (Some ''doc-2''), Failure (Some ''doc-2'') NotFoundError] empty_store)))
         (Some ''doc-2'') = Fetching
   \<and> get (run [Fetch (Some ''doc-2'')] empty_store) (Some ''doc-2'') = Fetching
   \<and> get (step (Failure (Some ''doc-2'') ServerError) (run [Fetch (Some ''doc-2'')] empty_store))
         (Some ''doc-2'') = Failed ServerError
   \<and> network_calls
        (dispatch_all
           (componentDidMount \<lparr> documentId = Some ''doc-2'', document = None,
              location = \<lparr> hash = JStr [] \<rparr> \<rparr>)
           (run [Fetch (Some ''doc-2''), Failure (Some ''doc-2'') NotFoundError] empty_store))
       = network_calls (run [Fetch (Some ''doc-2''), Failure (Some ''doc-2'') NotFoundError] empty_store)
           @ [Some ''doc-2'']"
proof -
  define st :: "string option store" where
    "st = run [Fetch (Some ''doc-2''), Failure (Some ''doc-2'') NotFoundError] empty_store"
  have g: "get st (Some ''doc-2'') = Failed NotFoundError"
    by (simp add: st_def fetch_def respond_def settle_def empty_store_def get_def)
  have h: "get st (documentId \<lparr> documentId = Some ''doc-2'', document = None,
              location = \<lparr> hash = JStr [] \<rparr> \<rparr>) = Failed NotFoundError"
    using g by simp
  have i: "get (run [Fetch (Some ''doc-2'')] empty_store) (Some ''doc-2'') = Fetching"
    by (simp add: fetch_def empty_store_def get_def)
  from g h i failed_fetch_retries
    [OF st_def g, of "run [Fetch (Some ''doc-2'')] empty_store" ServerError st
       "\<lparr> documentId = Some ''doc-2'', document = None, location = \<lparr> hash = JStr [] \<rparr> \<rparr>"
       NotFoundError]
  show ?thesis unfolding st_def by simp
qed







end
